theory Spec2Isabelle
  imports Complex_Main
begin

section \<open>Values\<close>

text \<open>
  \<open>plot_group\<close> (src/plotly_group.py) receives dynamically typed arguments. The model
  keeps the shapes the function inspects:
  \<^item> a number is a Python/NumPy integer or a float. A float is modelled by the decimal
    fraction \<open>m / 10 ^ e\<close> it denotes and float arithmetic is exact; integers are
    unbounded. Booleans, NaN and the infinities are not part of the model;
  \<^item> an atom is a number, a string or a missing entry (\<open>None\<close>/NaN);
  \<^item> an element of the \<open>intervals\<close> list is an atom or a list of atoms.
\<close>

datatype pynum = PInt int | PFloat int nat

fun val :: "pynum \<Rightarrow> rat" where
  "val (PInt i) = of_int i"
| "val (PFloat m e) = of_int m / 10 ^ e"

datatype atom = ANum pynum | AStr string | ANone

datatype elem = Scalar atom | Lst "atom list"

datatype series_arg = Series "atom list" | NotSeries elem

datatype color_arg = ColTuple "atom list" | ColList "atom list" | ColAtom atom

datatype intervals_arg = IvAtom atom | IvList "elem list"

subsection \<open>Exceptions\<close>

text \<open>
  A message is the sequence of the pieces of the source's f-string: literal text, a
  formatted number (\<open>{idx}\<close>, \<open>{len(...)}\<close>), a formatted object, an object formatted
  as a row of a NumPy array, and \<open>{type(...)}\<close> of an object. Quotation marks inside
  the literal text are left out and a line break is written as a blank.
\<close>

datatype fpart = Lit string | FNat nat | FElem elem | FRow elem | FType elem | FTypeArray

datatype exn =
    TypeError "fpart list"
  | ValueError "fpart list"
  | NameError "fpart list"
  | IndexError "fpart list"

subsection \<open>Text of numbers\<close>

text \<open>
  \<open>str\<close> of an integer is its decimal numeral. \<open>str\<close> of a float is the shortest
  decimal that reads back as the same float, with at least one digit after the point;
  on the decimal fraction that models the float this is its expansion without trailing
  zeros. (NumPy switches to exponent notation below \<open>1e-4\<close> and from \<open>1e16\<close> on; the
  model prints every float positionally.)
\<close>

definition digit :: "nat \<Rightarrow> char" where
  "digit d = char_of (48 + d)"

fun str_nat :: "nat \<Rightarrow> string" where
  "str_nat n = (if n < 10 then [digit n] else str_nat (n div 10) @ [digit (n mod 10)])"

declare str_nat.simps [simp del]

definition str_int :: "int \<Rightarrow> string" where
  "str_int i = (if i < 0 then CHR ''-'' # str_nat (nat (- i)) else str_nat (nat i))"

fun strip_zeros :: "nat \<Rightarrow> nat \<Rightarrow> nat \<times> nat" where
  "strip_zeros a 0 = (a, 0)"
| "strip_zeros a (Suc e) = (if a mod 10 = 0 then strip_zeros (a div 10) e else (a, Suc e))"

fun frac_digits :: "nat \<Rightarrow> nat \<Rightarrow> string" where
  "frac_digits 0 r = []"
| "frac_digits (Suc e) r = digit (r div 10 ^ e) # frac_digits e (r mod 10 ^ e)"

definition str_float :: "int \<Rightarrow> nat \<Rightarrow> string" where
  "str_float m e =
     (let (a, k) = strip_zeros (nat \<bar>m\<bar>) e
      in (if m < 0 then ''-'' else '''') @ str_nat (a div 10 ^ k) @ ''.'' @
         (if k = 0 then ''0'' else frac_digits k (a mod 10 ^ k)))"

fun str_num :: "pynum \<Rightarrow> string" where
  "str_num (PInt i) = str_int i"
| "str_num (PFloat m e) = str_float m e"


section \<open>Series check\<close>

text \<open>
  \<open>series.dropna()\<close> discards the missing entries; every value that is left must be
  an int or a float, else the loop raises at the index of the first offender.
\<close>

definition dropna :: "atom list \<Rightarrow> atom list" where
  "dropna xs = filter (\<lambda>a. a \<noteq> ANone) xs"

fun series_values :: "nat \<Rightarrow> atom list \<Rightarrow> exn + pynum list" where
  "series_values idx [] = Inr []"
| "series_values idx (ANum n # rest) =
     (case series_values (Suc idx) rest of Inl e \<Rightarrow> Inl e | Inr ns \<Rightarrow> Inr (n # ns))"
| "series_values idx (a # rest) =
     Inl (ValueError [Lit ''Series values must only contain int or float, '',
                      FType (Scalar a), Lit '' given at index '', FNat idx])"

definition series_check :: "series_arg \<Rightarrow> exn + pynum list" where
  "series_check series =
     (case series of
        NotSeries x \<Rightarrow>
          Inl (TypeError [Lit ''series must be a Pandas Series, '', FType x, Lit '' given''])
      | Series xs \<Rightarrow> series_values 0 (dropna xs))"

section \<open>Bar color check\<close>

text \<open>
  \<open>str\<close> of a tuple of numbers: the items separated by a comma and a blank, in
  parentheses (a one-item tuple ends in a comma).
\<close>

fun join_comma :: "string list \<Rightarrow> string" where
  "join_comma [] = []"
| "join_comma [s] = s"
| "join_comma (s # t) = s @ '', '' @ join_comma t"

definition str_tuple :: "pynum list \<Rightarrow> string" where
  "str_tuple ns =
     (case ns of [n] \<Rightarrow> ''('' @ str_num n @ '',)''
      | _ \<Rightarrow> ''('' @ join_comma (map str_num ns) @ '')'')"

definition rgb_ok :: "atom \<Rightarrow> bool" where
  "rgb_ok v = (case v of ANum (PInt i) \<Rightarrow> 0 \<le> i \<and> i \<le> 255 | _ \<Rightarrow> False)"

definition nums :: "atom list \<Rightarrow> pynum list" where
  "nums xs = concat (map (\<lambda>a. case a of ANum n \<Rightarrow> [n] | _ \<Rightarrow> []) xs)"

definition rgb_check :: "atom list \<Rightarrow> exn + string" where
  "rgb_check bar_color =
     (if length bar_color \<noteq> 3
      then Inl (ValueError [Lit ''Iterable must contain 3 RGB values,'', Lit '' '',
                            FNat (length bar_color), Lit '' given''])
      else let boo = map rgb_ok bar_color
           in if list_all (\<lambda>b. b) boo
              then Inr (''rgb'' @ str_tuple (nums bar_color))
              else Inl (ValueError [Lit ''Wrong RGB format, must be '',
                                    Lit ''3 int values between 0 and 255'']))"

definition bar_color_check :: "color_arg \<Rightarrow> exn + string" where
  "bar_color_check bar_color =
     (case bar_color of
        ColTuple xs \<Rightarrow> rgb_check xs
      | ColList xs \<Rightarrow> rgb_check xs
      | ColAtom (AStr s) \<Rightarrow> Inr s
      | ColAtom a \<Rightarrow>
          Inl (TypeError [Lit ''bar_color must be a tuple, list or str,'',
                          FType (Scalar a), Lit '' given'']))"

section \<open>Default intervals\<close>

text \<open>
  \<open>np.percentile(a, 80)\<close> with NumPy's default method (linear interpolation): on the
  sorted values, the entry at the fractional position \<open>(n - 1) * 0.8\<close>. An empty array
  has no percentile (\<open>None\<close> here): recent NumPy versions raise \<open>IndexError\<close>, which is
  what \<open>default_intervals\<close> below returns (older ones gave NaN with a warning). No
  statement of this theory is about an empty series in default mode.
\<close>

definition percentile80 :: "rat list \<Rightarrow> rat option" where
  "percentile80 a =
     (if a = [] then None
      else let s = sort a; n = length s;
               h = of_nat (n - 1) * (80 / 100);
               i = nat \<lfloor>h\<rfloor>; g = h - of_int \<lfloor>h\<rfloor>
           in Some (if Suc i < n then s ! i + g * (s ! Suc i - s ! i) else s ! i))"

text \<open>
  The names bound in the module when \<open>plot_group\<close> runs are the six imports and the
  function itself. Looking up any other global name raises \<open>NameError\<close>.
\<close>

definition module_globals :: "string list" where
  "module_globals = [''pd'', ''np'', ''px'', ''go'', ''pio'', ''Image'', ''plot_group'']"

definition lookup_global :: "string \<Rightarrow> exn + unit" where
  "lookup_global name =
     (if name \<in> set module_globals then Inr ()
      else Inl (NameError [Lit ''name '', Lit name, Lit '' is not defined'']))"

definition roundup :: "rat \<Rightarrow> exn + pynum" where
  "roundup x =
     (case lookup_global ''ceil'' of
        Inl e \<Rightarrow> Inl e
      | Inr _ \<Rightarrow> Inr (PInt (\<lceil>x / 100\<rceil> * 100)))"

text \<open>\<open>round(x, 3)\<close>: to the nearest multiple of 0.001, ties to the even one.\<close>

definition round_half_even :: "rat \<Rightarrow> int" where
  "round_half_even x =
     (let f = \<lfloor>x\<rfloor>; r = x - of_int f
      in if r < 1 / 2 then f else if 1 / 2 < r then f + 1
         else if even f then f else f + 1)"

definition float_round3 :: "rat \<Rightarrow> pynum" where
  "float_round3 x = PFloat (round_half_even (x * 1000)) 3"

fun py_round3 :: "pynum \<Rightarrow> pynum" where
  "py_round3 (PInt i) = PInt i"
| "py_round3 (PFloat m e) = float_round3 (val (PFloat m e))"

fun py_add :: "pynum \<Rightarrow> pynum \<Rightarrow> pynum" where
  "py_add (PInt a) (PInt b) = PInt (a + b)"
| "py_add (PInt a) (PFloat m e) = PFloat (a * 10 ^ e + m) e"
| "py_add (PFloat m e) (PInt b) = PFloat (m + b * 10 ^ e) e"
| "py_add (PFloat m e) (PFloat m' e') = PFloat (m * 10 ^ e' + m' * 10 ^ e) (e + e')"

definition nbr_of_intervals :: nat where
  "nbr_of_intervals = 5"

function default_loop ::
  "rat \<Rightarrow> pynum \<Rightarrow> (pynum \<times> pynum) list \<Rightarrow> pynum \<Rightarrow> pynum \<Rightarrow> (pynum \<times> pynum) list" where
  "default_loop percent interval_unit intervals frm to =
     (if length intervals < nbr_of_intervals
      then (if percent > of_nat nbr_of_intervals
            then default_loop percent interval_unit (intervals @ [(frm, to)])
                   (py_add frm interval_unit) (py_add to interval_unit)
            else default_loop percent interval_unit (intervals @ [(frm, to)])
                   (py_round3 (py_add frm interval_unit))
                   (py_round3 (py_add to interval_unit)))
      else intervals)"
  by pat_completeness auto
termination
  by (relation "measure (\<lambda>(p, u, ivs, f, t). nbr_of_intervals - length ivs)") auto

declare default_loop.simps [simp del]

text \<open>
  \<open>np.array\<close> of a list of pairs of numbers: one float makes every entry a float.
\<close>

fun is_float :: "pynum \<Rightarrow> bool" where
  "is_float (PInt i) = False"
| "is_float (PFloat m e) = True"

fun to_float :: "pynum \<Rightarrow> pynum" where
  "to_float (PInt i) = PFloat i 0"
| "to_float (PFloat m e) = PFloat m e"

definition np_array :: "(pynum \<times> pynum) list \<Rightarrow> (pynum \<times> pynum) list" where
  "np_array rows =
     (if list_ex (\<lambda>r. is_float (fst r) \<or> is_float (snd r)) rows
      then map (\<lambda>r. (to_float (fst r), to_float (snd r))) rows
      else rows)"

definition default_intervals :: "pynum list \<Rightarrow> exn + ((pynum \<times> pynum) list \<times> bool)" where
  "default_intervals values =
     (case percentile80 (map val values) of
        None \<Rightarrow> Inl (IndexError [Lit ''index -1 is out of bounds for axis 0 with size 0''])
      | Some percent \<Rightarrow>
          (case (if percent > of_nat nbr_of_intervals
                 then roundup (percent / of_nat nbr_of_intervals)
                 else Inr (float_round3 (percent / of_nat nbr_of_intervals))) of
             Inl e \<Rightarrow> Inl e
           | Inr interval_unit \<Rightarrow>
               Inr (np_array (default_loop percent interval_unit [] (PInt 0) interval_unit),
                    True)))"

section \<open>Intervals check\<close>

text \<open>
  The loop runs over the list the caller passed, but its last branch rebinds the name
  \<open>intervals\<close> to \<open>np.array(intervals)\<close> as soon as one element has passed every test,
  so from then on \<open>intervals[idx]\<close> in a message is an entry of that array.
  What NumPy does with a list whose elements are not all pairs depends on its version:
  from 1.24 on \<open>np.array\<close> raises \<open>ValueError\<close>, before it built a one-dimensional array
  of the elements themselves. The flag \<open>ragged_raises\<close> selects the behaviour.
  The conversion happens only after some element was found to be a pair, so the list is
  regular exactly when every element is a list of two entries.
  In a message, \<open>FRow v\<close> is the row of the array that \<open>v\<close> became (NumPy prints it in
  the array's common type) and \<open>FElem v\<close> is \<open>v\<close> itself.
\<close>

datatype binding = TheList | NdArray | ObjArray

definition regular :: "elem list \<Rightarrow> bool" where
  "regular xs = list_all (\<lambda>x. case x of Lst as \<Rightarrow> length as = 2 | Scalar a \<Rightarrow> False) xs"

definition rebind :: "bool \<Rightarrow> elem list \<Rightarrow> binding \<Rightarrow> exn + binding" where
  "rebind ragged_raises xs b =
     (case b of
        TheList \<Rightarrow>
          (if regular xs then Inr NdArray
           else if ragged_raises
           then Inl (ValueError [Lit ''setting an array element with a sequence. '',
                                 Lit ''The requested array has an inhomogeneous shape''])
           else Inr ObjArray)
      | _ \<Rightarrow> Inr b)"

definition item :: "binding \<Rightarrow> elem \<Rightarrow> fpart" where
  "item b v = (case b of NdArray \<Rightarrow> FRow v | _ \<Rightarrow> FElem v)"

definition item_type :: "binding \<Rightarrow> elem \<Rightarrow> fpart" where
  "item_type b v = (case b of NdArray \<Rightarrow> FTypeArray | _ \<Rightarrow> FType v)"

text \<open>
  \<open>acc\<close> collects the pairs that have passed, which are the rows of the array the name
  is bound to when the loop ends (an empty list never enters the loop and stays a list).
\<close>

fun check_loop ::
  "bool \<Rightarrow> elem list \<Rightarrow> nat \<Rightarrow> elem list \<Rightarrow> binding \<Rightarrow> (pynum \<times> pynum) list
     \<Rightarrow> exn + (pynum \<times> pynum) list" where
  "check_loop rr xs idx [] b acc = Inr (np_array acc)"
| "check_loop rr xs idx (v # rest) b acc =
     (case v of
        Scalar a \<Rightarrow>
          Inl (TypeError [Lit ''intervals must only contains lists '', item_type b v,
                          Lit '' given at index '', FNat idx, Lit '' --> '', item b v])
      | Lst as \<Rightarrow>
          (if length as \<noteq> 2
           then Inl (TypeError [Lit ''An interval must contain 2 values '', FNat (length as),
                                Lit '' given at index '', FNat idx, Lit '' --> '', item b v])
           else (case (as ! 0, as ! 1) of
                   (ANum lo, ANum hi) \<Rightarrow>
                     (if \<not> val lo < val hi
                      then Inl (ValueError [Lit ''The 2nd value of an interval '',
                                            Lit ''must be greater than the 1st --> '',
                                            item b v, Lit '' at index '', FNat idx])
                      else (case rebind rr xs b of
                              Inl e \<Rightarrow> Inl e
                            | Inr b' \<Rightarrow> check_loop rr xs (Suc idx) rest b' (acc @ [(lo, hi)])))
                 | _ \<Rightarrow>
                     Inl (ValueError [Lit ''An interval must contain 2 numbers, '',
                                      Lit ''int or float. --> '', item b v,
                                      Lit '' at index '', FNat idx]))))"

definition intervals_check :: "bool \<Rightarrow> elem list \<Rightarrow> exn + (pynum \<times> pynum) list" where
  "intervals_check rr intervals = check_loop rr intervals 0 intervals TheList []"

section \<open>Grouping\<close>

text \<open>
  \<open>intervals_dict\<close> is a Python dictionary: it keeps the order in which keys were first
  inserted, and assigning to a key that is present replaces its value in place.
\<close>

type_synonym bins = "(string \<times> pynum list \<times> nat) list"

fun dict_set :: "string \<Rightarrow> pynum list \<times> nat \<Rightarrow> bins \<Rightarrow> bins" where
  "dict_set k v [] = [(k, v)]"
| "dict_set k v (p # ps) = (if fst p = k then (k, v) # ps else p # dict_set k v ps)"

definition label :: "pynum \<times> pynum \<Rightarrow> string" where
  "label itrvl = str_num (fst itrvl) @ ''-'' @ str_num (snd itrvl)"

definition part_of :: "pynum list \<Rightarrow> pynum \<times> pynum \<Rightarrow> pynum list" where
  "part_of series itrvl =
     filter (\<lambda>x. val x > val (fst itrvl) \<and> val x \<le> val (snd itrvl)) series"

fun group_loop :: "pynum list \<Rightarrow> (pynum \<times> pynum) list \<Rightarrow> bins \<Rightarrow> bins" where
  "group_loop series [] intervals_dict = intervals_dict"
| "group_loop series (itrvl # rest) intervals_dict =
     (let part = part_of series itrvl
      in group_loop series rest (dict_set (label itrvl) (part, length part) intervals_dict))"

definition grouping :: "pynum list \<Rightarrow> (pynum \<times> pynum) list \<Rightarrow> bool \<Rightarrow> exn + bins" where
  "grouping series intervals higher_vals =
     (let intervals_dict = group_loop series intervals []
      in if higher_vals
         then (case intervals of
                 [] \<Rightarrow> Inl (IndexError [Lit ''list index out of range''])
               | _ \<Rightarrow>
                   let hi = snd (last intervals);
                       part = filter (\<lambda>x. val x > val hi) series
                   in Inr (dict_set (''+'' @ str_num hi) (part, length part) intervals_dict))
         else Inr intervals_dict)"

section \<open>The function up to the axes of the chart\<close>

text \<open>
  \<open>plot_group\<close> runs the four stages in this order and hands the keys (\<open>x\<close>) and the
  counts (\<open>y\<close>) of the dictionary to Plotly with the color. The chart itself is Plotly's
  and is outside the model, as are \<open>title\<close>, the axis labels, \<open>kind\<close>, \<open>grid\<close> and
  \<open>output\<close>. The first argument of \<open>resolve\<close> and \<open>plot_group\<close> is the flag of the
  intervals check; the others follow the source: \<open>series\<close>, \<open>intervals\<close>,
  \<open>higher_vals\<close>, \<open>bar_color\<close>.
\<close>

record chart_data =
  color :: string
  intervals_dict :: bins

definition x_axis :: "bins \<Rightarrow> string list" where
  "x_axis d = map fst d"


definition resolve ::
  "bool \<Rightarrow> pynum list \<Rightarrow> intervals_arg \<Rightarrow> bool \<Rightarrow> exn + ((pynum \<times> pynum) list \<times> bool)" where
  "resolve rr values intervals higher_vals =
     (case intervals of
        IvAtom ANone \<Rightarrow> default_intervals values
      | IvAtom a \<Rightarrow>
          Inl (TypeError [Lit ''intervals must be a list, '', FType (Scalar a), Lit '' given''])
      | IvList xs \<Rightarrow>
          (case intervals_check rr xs of
             Inl e \<Rightarrow> Inl e
           | Inr rows \<Rightarrow> Inr (rows, higher_vals)))"

definition plot_group ::
  "bool \<Rightarrow> series_arg \<Rightarrow> intervals_arg \<Rightarrow> bool \<Rightarrow> color_arg \<Rightarrow> exn + chart_data" where
  "plot_group rr series intervals higher_vals bar_color =
     (case series_check series of
        Inl e \<Rightarrow> Inl e
      | Inr values \<Rightarrow>
          (case bar_color_check bar_color of
             Inl e \<Rightarrow> Inl e
           | Inr c \<Rightarrow>
               (case resolve rr values intervals higher_vals of
                  Inl e \<Rightarrow> Inl e
                | Inr (rows, hv) \<Rightarrow>
                    (case grouping values rows hv of
                       Inl e \<Rightarrow> Inl e
                     | Inr d \<Rightarrow> Inr \<lparr>color = c, intervals_dict = d\<rparr>))))"

section \<open>Notions used in the statements\<close>

text \<open>A series of integers, and which exception a result carries.\<close>

definition ints :: "int list \<Rightarrow> atom list" where
  "ints xs = map (\<lambda>i. ANum (PInt i)) xs"

fun raises_value_error :: "exn + 'a \<Rightarrow> bool" where
  "raises_value_error (Inl (ValueError m)) = True"
| "raises_value_error r = False"

fun raises_type_error :: "exn + 'a \<Rightarrow> bool" where
  "raises_type_error (Inl (TypeError m)) = True"
| "raises_type_error r = False"

text \<open>The numeric bounds of resolved intervals, and reading a result.\<close>

definition bounds :: "(pynum \<times> pynum) list \<Rightarrow> (rat \<times> rat) list" where
  "bounds rows = map (\<lambda>r. (val (fst r), val (snd r))) rows"

fun rows_of :: "exn + ((pynum \<times> pynum) list \<times> bool) \<Rightarrow> (pynum \<times> pynum) list option" where
  "rows_of (Inr (rows, hv)) = Some rows"
| "rows_of (Inl e) = None"

fun bin_of :: "exn + chart_data \<Rightarrow> string \<Rightarrow> (pynum list \<times> nat) option" where
  "bin_of (Inr r) k = map_of (intervals_dict r) k"
| "bin_of (Inl e) k = None"

text \<open>
  The intervals that the specification's first scenario expects for the series
  1, 2, 3, 4, 5, 100: [0,0.8], [0.8,1.6], [1.6,2.4], [2.4,3.2], [3.2,4.0].
\<close>

definition scenario1_spec_bounds :: "(rat \<times> rat) list" where
  "scenario1_spec_bounds =
     [(0, 8 / 10), (8 / 10, 16 / 10), (16 / 10, 24 / 10), (24 / 10, 32 / 10), (32 / 10, 4)]"

text \<open>
  A well-formed element of a custom intervals list, and all values that some bin holds.
\<close>

fun valid_pair :: "elem \<Rightarrow> bool" where
  "valid_pair (Lst [ANum lo, ANum hi]) = (val lo < val hi)"
| "valid_pair v = False"

definition binned :: "bins \<Rightarrow> pynum list" where
  "binned d = concat (map (\<lambda>kv. fst (snd kv)) d)"

text \<open>
  Reading the text of a number back. These functions are not part of the program: they
  serve to show that intervals with different bounds never share a label.
\<close>

definition is_digit :: "char \<Rightarrow> bool" where
  "is_digit c = (c \<in> set ''0123456789'')"

definition digit_val :: "char \<Rightarrow> nat" where
  "digit_val c = of_char c - 48"

definition read_nat :: "string \<Rightarrow> nat" where
  "read_nat s = foldl (\<lambda>n c. 10 * n + digit_val c) 0 s"

fun read_frac :: "string \<Rightarrow> rat" where
  "read_frac [] = 0"
| "read_frac (c # cs) = (of_nat (digit_val c) + read_frac cs) / 10"

definition read_unsigned :: "string \<Rightarrow> rat" where
  "read_unsigned s =
     of_nat (read_nat (takeWhile is_digit s)) +
     (case dropWhile is_digit s of [] \<Rightarrow> 0 | c # f \<Rightarrow> read_frac f)"

definition read_num :: "string \<Rightarrow> rat" where
  "read_num s =
     (case s of [] \<Rightarrow> 0
      | c # t \<Rightarrow> if c = CHR ''-'' then - read_unsigned t else read_unsigned s)"

definition body_char :: "char \<Rightarrow> bool" where
  "body_char c = (is_digit c \<or> c = CHR ''.'')"

definition num_prefix :: "string \<Rightarrow> string" where
  "num_prefix s =
     (case s of [] \<Rightarrow> []
      | c # t \<Rightarrow> if c = CHR ''-'' then c # takeWhile body_char t else takeWhile body_char s)"

definition float_body :: "nat \<Rightarrow> nat \<Rightarrow> string" where
  "float_body a k =
     str_nat (a div 10 ^ k) @ ''.'' @ (if k = 0 then ''0'' else frac_digits k (a mod 10 ^ k))"

text \<open>The values stored under a key of the dictionary (none when the key is absent).\<close>

definition bin_values :: "bins \<Rightarrow> string \<Rightarrow> pynum list" where
  "bin_values d k = (case map_of d k of Some pn \<Rightarrow> fst pn | None \<Rightarrow> [])"

text \<open>
  Intervals that follow one another without a gap, the list the caller writes for given
  pairs of bounds, a value lying in an interval, and a list of contiguous intervals none
  of which runs backwards.
\<close>

fun contiguous :: "(pynum \<times> pynum) list \<Rightarrow> bool" where
  "contiguous (r # s # rs) = (val (snd r) = val (fst s) \<and> contiguous (s # rs))"
| "contiguous rs = True"

definition as_intervals :: "(pynum \<times> pynum) list \<Rightarrow> elem list" where
  "as_intervals rows = map (\<lambda>r. Lst [ANum (fst r), ANum (snd r)]) rows"

definition inside :: "pynum \<Rightarrow> pynum \<times> pynum \<Rightarrow> bool" where
  "inside v r = (val (fst r) < val v \<and> val v \<le> val (snd r))"

definition chain :: "(pynum \<times> pynum) list \<Rightarrow> bool" where
  "chain rows = (contiguous rows \<and> list_all (\<lambda>r. val (fst r) \<le> val (snd r)) rows)"



section \<open>Evaluation rules\<close>

lemma digit_simps:
  "digit 0 = CHR ''0''" "digit 1 = CHR ''1''" "digit 2 = CHR ''2''" "digit 3 = CHR ''3''"
  "digit 4 = CHR ''4''" "digit 5 = CHR ''5''" "digit 6 = CHR ''6''" "digit 7 = CHR ''7''"
  "digit 8 = CHR ''8''" "digit 9 = CHR ''9''" "digit (Suc 0) = CHR ''1''"
  by code_simp+

lemma str_nat_small: "n < 10 \<Longrightarrow> str_nat n = [digit n]"
  by (simp add: str_nat.simps)

lemma str_nat_big: "10 \<le> n \<Longrightarrow> str_nat n = str_nat (n div 10) @ [digit (n mod 10)]"
  by (subst str_nat.simps) simp

lemma strip_zeros_stop: "0 < e \<Longrightarrow> a mod 10 \<noteq> 0 \<Longrightarrow> strip_zeros a e = (a, e)"
  by (cases e) simp_all

lemma strip_zeros_step:
  "0 < e \<Longrightarrow> a mod 10 = 0 \<Longrightarrow> strip_zeros a e = strip_zeros (a div 10) (e - 1)"
  by (cases e) simp_all

lemma frac_digits_step:
  "0 < e \<Longrightarrow>
   frac_digits e r = digit (r div 10 ^ (e - 1)) # frac_digits (e - 1) (r mod 10 ^ (e - 1))"
  by (cases e) simp_all

lemmas str_eval = digit_simps str_nat_small str_nat_big strip_zeros_stop strip_zeros_step
  frac_digits_step str_float_def str_int_def label_def

lemma series_values_ints: "series_values idx (ints xs) = Inr (map PInt xs)"
  by (induction xs arbitrary: idx) (simp_all add: ints_def)

lemma series_check_ints: "series_check (Series (ints xs)) = Inr (map PInt xs)"
proof -
  have "dropna (ints xs) = ints xs"
    by (simp add: dropna_def ints_def)
  then show ?thesis
    by (simp add: series_check_def series_values_ints)
qed

section \<open>The branch for a percentile above 5\<close>

text \<open>
  \<open>roundup\<close> calls \<open>ceil\<close>, which the module never imports: whenever the 80th percentile
  exceeds 5 the default resolver stops with \<open>NameError\<close> before it has a unit.
\<close>

lemma default_intervals_above_5:
  assumes "percentile80 (map val values) = Some percent" and "percent > 5"
  shows "default_intervals values =
           Inl (NameError [Lit ''name '', Lit ''ceil'', Lit '' is not defined''])"
  using assms
  by (simp add: default_intervals_def nbr_of_intervals_def roundup_def lookup_global_def
      module_globals_def)

text \<open>
  Claim C2 (unit for a percentile above 5): for the series 10, 20, 30, 40, 50 the 80th
  percentile is 42, and the resolver, instead of returning the unit 100 and the intervals
  [0,100], ..., [400,500], raises \<open>NameError\<close> for the name \<open>ceil\<close>.
\<close>

theorem roundup_raises_name_error:
  "percentile80 (map val (map PInt [10, 20, 30, 40, 50])) = Some 42 \<and>
   default_intervals (map PInt [10, 20, 30, 40, 50]) =
     Inl (NameError [Lit ''name '', Lit ''ceil'', Lit '' is not defined''])"
  by code_simp

text \<open>
  Claim C6 (overflow bin forced on in default mode): for the series 10, 20, 30 (80th
  percentile 26) with no intervals and \<open>higher_vals = False\<close> the call ends in the same
  \<open>NameError\<close>; there is no result and so no overflow bin.
\<close>

theorem default_mode_no_overflow_bin_above_5:
  "plot_group rr (Series (ints [10, 20, 30])) (IvAtom ANone) False (ColAtom (AStr c)) =
     Inl (NameError [Lit ''name '', Lit ''ceil'', Lit '' is not defined''])"
proof -
  have p: "percentile80 (map val (map PInt [10, 20, 30])) = Some 26"
    by code_simp
  have "default_intervals (map PInt [10, 20, 30]) =
          Inl (NameError [Lit ''name '', Lit ''ceil'', Lit '' is not defined''])"
    by (rule default_intervals_above_5 [OF p]) simp
  then show ?thesis
    by (simp add: plot_group_def series_check_ints bar_color_check_def resolve_def)
qed

section \<open>An empty list of intervals\<close>

text \<open>
  Claim C10 (empty custom intervals): the empty list passes the intervals check and is
  resolved with the caller's flag; without the overflow bin the grouping yields no bin
  at all, and with it the grouping reads the last element of the empty list and raises
  \<open>IndexError\<close>.
\<close>

theorem empty_intervals_pass_validation:
  "intervals_check rr [] = Inr [] \<and>
   resolve rr values (IvList []) hv = Inr ([], hv) \<and>
   grouping values [] False = Inr [] \<and>
   grouping values [] True = Inl (IndexError [Lit ''list index out of range''])"
  by (simp add: intervals_check_def resolve_def grouping_def np_array_def)

section \<open>The series 1, 2, 3, 4, 5, 100 with default intervals\<close>

lemma scenario1_percentile:
  "percentile80 (map val (map PInt [1, 2, 3, 4, 5, 100])) = Some 5"
  by code_simp

lemma scenario1_default_intervals:
  "default_intervals (map PInt [1, 2, 3, 4, 5, 100]) =
     Inr ([(PFloat 0 0, PFloat 1000 3), (PFloat 1000 3, PFloat 2000 3),
           (PFloat 2000 3, PFloat 3000 3), (PFloat 3000 3, PFloat 4000 3),
           (PFloat 4000 3, PFloat 5000 3)], True)"
  by code_simp

lemma scenario1_grouping:
  "grouping (map PInt [1, 2, 3, 4, 5, 100])
     [(PFloat 0 0, PFloat 1000 3), (PFloat 1000 3, PFloat 2000 3),
      (PFloat 2000 3, PFloat 3000 3), (PFloat 3000 3, PFloat 4000 3),
      (PFloat 4000 3, PFloat 5000 3)] True =
   Inr [(''0.0-1.0'', [PInt 1], 1), (''1.0-2.0'', [PInt 2], 1), (''2.0-3.0'', [PInt 3], 1),
        (''3.0-4.0'', [PInt 4], 1), (''4.0-5.0'', [PInt 5], 1), (''+5.0'', [PInt 100], 1)]"
  by (simp add: grouping_def part_of_def str_eval)

lemma scenario1_plot_group:
  "plot_group rr (Series (ints [1, 2, 3, 4, 5, 100])) (IvAtom ANone) hv (ColAtom (AStr c)) =
     Inr \<lparr>color = c, intervals_dict =
       [(''0.0-1.0'', [PInt 1], 1), (''1.0-2.0'', [PInt 2], 1), (''2.0-3.0'', [PInt 3], 1),
        (''3.0-4.0'', [PInt 4], 1), (''4.0-5.0'', [PInt 5], 1), (''+5.0'', [PInt 100], 1)]\<rparr>"
  by (simp only: plot_group_def series_check_ints bar_color_check_def resolve_def
      scenario1_default_intervals scenario1_grouping sum.case prod.case color_arg.case
      atom.case intervals_arg.case)

lemma scenario1_bounds:
  "map_option bounds (rows_of (default_intervals (map PInt [1, 2, 3, 4, 5, 100]))) =
     Some [(0, 1), (1, 2), (2, 3), (3, 4), (4, 5)]"
  unfolding scenario1_default_intervals by (simp add: bounds_def)

text \<open>
  Claim C1 as the specification states it fails: the 80th percentile of the series is 5,
  not about 4 (the sorted values are read at position 0.8 * 5 = 4, which holds the
  value 5), so the intervals are not those of the scenario and no bin is labelled
  \<open>+4.0\<close>.
\<close>

theorem scenario1_counterexample:
  "percentile80 (map val (map PInt [1, 2, 3, 4, 5, 100])) = Some 5 \<and>
   map_option bounds (rows_of (default_intervals (map PInt [1, 2, 3, 4, 5, 100])))
     \<noteq> Some scenario1_spec_bounds \<and>
   bin_of (plot_group True (Series (ints [1, 2, 3, 4, 5, 100])) (IvAtom ANone) False
            (ColAtom (AStr ''#1776f2''))) ''+4.0'' = None"
proof (intro conjI)
  show "percentile80 (map val (map PInt [1, 2, 3, 4, 5, 100])) = Some 5"
    by (rule scenario1_percentile)
  show "map_option bounds (rows_of (default_intervals (map PInt [1, 2, 3, 4, 5, 100])))
          \<noteq> Some scenario1_spec_bounds"
    unfolding scenario1_bounds by (simp add: scenario1_spec_bounds_def)
  show "bin_of (plot_group True (Series (ints [1, 2, 3, 4, 5, 100])) (IvAtom ANone) False
            (ColAtom (AStr ''#1776f2''))) ''+4.0'' = None"
    unfolding scenario1_plot_group by simp
qed

text \<open>
  Claim C1, amended: for the series 1, 2, 3, 4, 5, 100 with no custom intervals the 80th
  percentile is 5, the branch for a percentile of at most 5 is taken with the unit
  round(5/5, 3) = 1.0, the intervals are [0,1], [1,2], [2,3], [3,4], [4,5], each of the
  values 1 to 5 falls in the bin that ends at it, and the overflow bin, labelled \<open>+5.0\<close>,
  contains exactly the value 100.
\<close>

theorem scenario1_actual:
  "percentile80 (map val (map PInt [1, 2, 3, 4, 5, 100])) = Some 5 \<and>
   map_option bounds (rows_of (default_intervals (map PInt [1, 2, 3, 4, 5, 100]))) =
     Some [(0, 1), (1, 2), (2, 3), (3, 4), (4, 5)] \<and>
   plot_group rr (Series (ints [1, 2, 3, 4, 5, 100])) (IvAtom ANone) hv (ColAtom (AStr c)) =
     Inr \<lparr>color = c, intervals_dict =
       [(''0.0-1.0'', [PInt 1], 1), (''1.0-2.0'', [PInt 2], 1), (''2.0-3.0'', [PInt 3], 1),
        (''3.0-4.0'', [PInt 4], 1), (''4.0-5.0'', [PInt 5], 1), (''+5.0'', [PInt 100], 1)]\<rparr>"
  using scenario1_percentile scenario1_bounds scenario1_plot_group by blast

section \<open>Values outside all intervals\<close>

lemma dict_set_subset: "set (dict_set k v d) \<subseteq> insert (k, v) (set d)"
  by (induction d) auto

lemma group_loop_entries:
  "e \<in> set (group_loop series rows d) \<Longrightarrow>
   e \<in> set d \<or> (\<exists>r\<in>set rows. e = (label r, part_of series r, length (part_of series r)))"
proof (induction rows arbitrary: d)
  case Nil
  then show ?case by simp
next
  case (Cons r rows)
  from Cons.prems
  have "e \<in> set (group_loop series rows
            (dict_set (label r) (part_of series r, length (part_of series r)) d))"
    by (simp add: Let_def)
  from Cons.IH [OF this] show ?case
    using dict_set_subset [of "label r" "(part_of series r, length (part_of series r))" d]
    by auto
qed

lemma scenario2_intervals_check:
  "intervals_check rr [Lst (ints [0, 10]), Lst (ints [10, 20])] =
     Inr [(PInt 0, PInt 10), (PInt 10, PInt 20)]"
  by (cases rr) (simp_all add: intervals_check_def ints_def rebind_def regular_def np_array_def)

lemma scenario2_grouping:
  "grouping (map PInt [5, 15, 25]) [(PInt 0, PInt 10), (PInt 10, PInt 20)] False =
     Inr [(''0-10'', [PInt 5], 1), (''10-20'', [PInt 15], 1)]"
  by (simp add: grouping_def part_of_def str_eval)

text \<open>
  Claim C9 (values outside all intervals are dropped): a value that no interval
  \<open>(lo, hi]\<close> contains, and that the overflow bin (when enabled) does not catch, is in
  no bin of the result, and the grouping returns normally. With the custom intervals
  [[0,10],[10,20]], no overflow bin and the series 5, 15, 25 the result is exactly the
  bin \<open>0-10\<close> with [5] and the bin \<open>10-20\<close> with [15].
\<close>

theorem values_outside_intervals_dropped:
  "((\<forall>r\<in>set intervals. \<not> (val (fst r) < val v \<and> val v \<le> val (snd r))) \<and>
    (higher_vals \<longrightarrow> intervals \<noteq> [] \<and> val v \<le> val (snd (last intervals)))
    \<longrightarrow> (\<exists>d. grouping series intervals higher_vals = Inr d \<and> v \<notin> set (binned d))) \<and>
   plot_group rr (Series (ints [5, 15, 25]))
       (IvList [Lst (ints [0, 10]), Lst (ints [10, 20])]) False (ColAtom (AStr c)) =
     Inr \<lparr>color = c, intervals_dict = [(''0-10'', [PInt 5], 1), (''10-20'', [PInt 15], 1)]\<rparr>"
proof (intro conjI impI)
  assume a: "(\<forall>r\<in>set intervals. \<not> (val (fst r) < val v \<and> val v \<le> val (snd r))) \<and>
    (higher_vals \<longrightarrow> intervals \<noteq> [] \<and> val v \<le> val (snd (last intervals)))"
  let ?d = "group_loop series intervals []"
  have loop: "v \<notin> set (binned ?d)"
  proof
    assume "v \<in> set (binned ?d)"
    then obtain e where e: "e \<in> set ?d" and v: "v \<in> set (fst (snd e))"
      by (auto simp: binned_def)
    from group_loop_entries [OF e] obtain r where "r \<in> set intervals"
      and "e = (label r, part_of series r, length (part_of series r))"
      by auto
    with v a show False
      by (auto simp: part_of_def)
  qed
  show "\<exists>d. grouping series intervals higher_vals = Inr d \<and> v \<notin> set (binned d)"
  proof (cases higher_vals)
    case False
    with loop show ?thesis
      by (simp add: grouping_def)
  next
    case True
    with a obtain r rs where iv: "intervals = r # rs"
      and le: "val v \<le> val (snd (last intervals))"
      by (cases intervals) auto
    let ?hi = "snd (last intervals)"
    let ?p = "filter (\<lambda>x. val x > val ?hi) series"
    let ?d' = "dict_set (''+'' @ str_num ?hi) (?p, length ?p) ?d"
    have g: "grouping series intervals higher_vals = Inr ?d'"
      using True iv by (simp add: grouping_def Let_def)
    have "v \<notin> set (binned ?d')"
    proof
      assume "v \<in> set (binned ?d')"
      then obtain e where e: "e \<in> set ?d'" and v: "v \<in> set (fst (snd e))"
        by (auto simp: binned_def)
      from e dict_set_subset [of "''+'' @ str_num ?hi" "(?p, length ?p)" ?d]
      have "e = (''+'' @ str_num ?hi, ?p, length ?p) \<or> e \<in> set ?d"
        by auto
      then show False
      proof
        assume "e = (''+'' @ str_num ?hi, ?p, length ?p)"
        with v le show False by auto
      next
        assume "e \<in> set ?d"
        with v loop show False by (auto simp: binned_def)
      qed
    qed
    with g show ?thesis by blast
  qed
next
  show "plot_group rr (Series (ints [5, 15, 25]))
       (IvList [Lst (ints [0, 10]), Lst (ints [10, 20])]) False (ColAtom (AStr c)) =
     Inr \<lparr>color = c, intervals_dict = [(''0-10'', [PInt 5], 1), (''10-20'', [PInt 15], 1)]\<rparr>"
    by (simp only: plot_group_def series_check_ints bar_color_check_def resolve_def
      scenario2_intervals_check scenario2_grouping sum.case prod.case color_arg.case
      atom.case intervals_arg.case)
qed

theorem values_outside_intervals_dropped_witness:
  "\<exists>d. grouping (map PInt [5, 15, 25]) [(PInt 0, PInt 10), (PInt 10, PInt 20)] False = Inr d \<and>
       PInt 25 \<notin> set (binned d)"
  using values_outside_intervals_dropped
    [of "[(PInt 0, PInt 10), (PInt 10, PInt 20)]" "PInt 25" False "map PInt [5, 15, 25]"]
  by simp

section \<open>The color given as a triple\<close>






section \<open>A list of the wrong length among the intervals\<close>

lemma valid_pairE:
  assumes "valid_pair v"
  obtains lo hi where "v = Lst [ANum lo, ANum hi]" and "val lo < val hi"
  using assms by (auto elim: valid_pair.elims)

lemma check_loop_arity:
  assumes "list_all valid_pair pre" and "length as \<noteq> 2"
    and "pre = [] \<and> b = TheList \<or> \<not> rr \<and> \<not> regular xs \<and> b \<noteq> NdArray"
  shows "check_loop rr xs idx (pre @ Lst as # rest) b acc =
           Inl (TypeError [Lit ''An interval must contain 2 values '', FNat (length as),
                           Lit '' given at index '', FNat (idx + length pre), Lit '' --> '',
                           FElem (Lst as)])"
  using assms
proof (induction pre arbitrary: idx b acc)
  case Nil
  then show ?case
    by (auto simp: item_def split: binding.splits)
next
  case (Cons p pre)
  from Cons.prems(1) have "valid_pair p" and pre: "list_all valid_pair pre"
    by simp_all
  then obtain lo hi where p: "p = Lst [ANum lo, ANum hi]" and lt: "val lo < val hi"
    by (auto elim: valid_pairE)
  from Cons.prems(3) have c: "\<not> rr" "\<not> regular xs" "b \<noteq> NdArray"
    by auto
  then obtain b' where rb: "rebind rr xs b = Inr b'" and b': "b' \<noteq> NdArray"
    by (cases b) (simp_all add: rebind_def)
  have "check_loop rr xs (Suc idx) (pre @ Lst as # rest) b' (acc @ [(lo, hi)]) =
           Inl (TypeError [Lit ''An interval must contain 2 values '', FNat (length as),
                           Lit '' given at index '', FNat (Suc idx + length pre), Lit '' --> '',
                           FElem (Lst as)])"
    using c b' by (intro Cons.IH [OF pre Cons.prems(2)]) simp
  then show ?case
    using p lt rb by simp
qed

text \<open>
  Claim C7, amended: when a list that does not have exactly 2 entries stands at index
  \<open>k\<close> of the intervals and every element before it is a pair of numbers in increasing
  order, the check fails with \<open>TypeError\<close> (not \<open>ValueError\<close>), and the message carries
  the length found, the index \<open>k\<close> and the list itself. This holds for \<open>k = 0\<close>
  whatever NumPy does with ragged lists, and for every \<open>k\<close> when NumPy still builds an
  array from them.
\<close>

theorem wrong_arity_type_error:
  assumes "k < length xs" and "xs ! k = Lst as" and "length as \<noteq> 2"
    and "list_all valid_pair (take k xs)" and "k = 0 \<or> \<not> rr"
  shows "intervals_check rr xs =
           Inl (TypeError [Lit ''An interval must contain 2 values '', FNat (length as),
                           Lit '' given at index '', FNat k, Lit '' --> '', FElem (Lst as)])"
proof -
  have xs: "xs = take k xs @ Lst as # drop (Suc k) xs"
    using assms(1,2) by (metis id_take_nth_drop)
  have "\<not> regular xs"
  proof
    assume "regular xs"
    then have "case xs ! k of Lst as \<Rightarrow> length as = 2 | Scalar a \<Rightarrow> False"
      using assms(1) by (simp add: regular_def list_all_length)
    with assms(2,3) show False by simp
  qed
  with assms(1,5) have c: "take k xs = [] \<and> TheList = TheList \<or>
      \<not> rr \<and> \<not> regular xs \<and> TheList \<noteq> NdArray"
    by auto
  have "check_loop rr xs 0 (take k xs @ Lst as # drop (Suc k) xs) TheList [] =
           Inl (TypeError [Lit ''An interval must contain 2 values '', FNat (length as),
                           Lit '' given at index '', FNat (0 + length (take k xs)),
                           Lit '' --> '', FElem (Lst as)])"
    by (rule check_loop_arity [OF assms(4) assms(3) c])
  with xs assms(1) show ?thesis
    by (simp add: intervals_check_def min_def)
qed

theorem wrong_arity_type_error_witness:
  "intervals_check True [Lst (ints [1, 2, 3])] =
     Inl (TypeError [Lit ''An interval must contain 2 values '', FNat 3,
                     Lit '' given at index '', FNat 0, Lit '' --> '',
                     FElem (Lst (ints [1, 2, 3]))]) \<and>
   intervals_check False [Lst (ints [0, 10]), Lst (ints [1, 2, 3])] =
     Inl (TypeError [Lit ''An interval must contain 2 values '', FNat 3,
                     Lit '' given at index '', FNat 1, Lit '' --> '',
                     FElem (Lst (ints [1, 2, 3]))])"
proof -
  have 1: "intervals_check True [Lst (ints [1, 2, 3])] =
     Inl (TypeError [Lit ''An interval must contain 2 values '', FNat 3,
                     Lit '' given at index '', FNat 0, Lit '' --> '',
                     FElem (Lst (ints [1, 2, 3]))])"
    using wrong_arity_type_error [of 0 "[Lst (ints [1, 2, 3])]" "ints [1, 2, 3]" True]
    by (simp add: ints_def)
  have 2: "intervals_check False [Lst (ints [0, 10]), Lst (ints [1, 2, 3])] =
     Inl (TypeError [Lit ''An interval must contain 2 values '', FNat 3,
                     Lit '' given at index '', FNat 1, Lit '' --> '',
                     FElem (Lst (ints [1, 2, 3]))])"
    using wrong_arity_type_error
      [of 1 "[Lst (ints [0, 10]), Lst (ints [1, 2, 3])]" "ints [1, 2, 3]" False]
    by (simp add: ints_def)
  from 1 2 show ?thesis by simp
qed

text \<open>
  Claim C7 as the specification states it fails: for the intervals [[1, 2, 3]] the
  exception is a \<open>TypeError\<close>, not a \<open>ValueError\<close>.
\<close>

theorem wrong_arity_counterexample:
  "\<not> raises_value_error (intervals_check True [Lst (ints [1, 2, 3])]) \<and>
   raises_type_error (intervals_check True [Lst (ints [1, 2, 3])])"
  by (simp add: intervals_check_def ints_def item_def)

section \<open>Labels determine the bounds\<close>

lemma digit_cases:
  assumes "d < 10"
  shows "d = 0 \<or> d = 1 \<or> d = 2 \<or> d = 3 \<or> d = 4 \<or> d = 5 \<or> d = 6 \<or> d = 7 \<or> d = 8 \<or> d = (9::nat)"
  using assms by arith

lemma is_digit_digit: "d < 10 \<Longrightarrow> is_digit (digit d)"
  using digit_cases [of d] by (auto simp: is_digit_def digit_simps)

lemma digit_val_digit: "d < 10 \<Longrightarrow> digit_val (digit d) = d"
  using digit_cases [of d] by (auto simp: digit_val_def digit_simps)

lemma not_digit_signs [simp]:
  "\<not> is_digit CHR ''-''" "\<not> is_digit CHR ''+''" "\<not> is_digit CHR ''.''"
  "\<not> body_char CHR ''-''" "\<not> body_char CHR ''+''"
  by (simp_all add: is_digit_def body_char_def)

lemma str_nat_digits: "c \<in> set (str_nat n) \<Longrightarrow> is_digit c"
proof (induction n rule: str_nat.induct)
  case (1 n)
  show ?case
  proof (cases "n < 10")
    case True
    with "1.prems" show ?thesis
      by (simp add: str_nat_small is_digit_digit)
  next
    case False
    with "1.prems" "1.IH" show ?thesis
      by (auto simp: str_nat_big is_digit_digit)
  qed
qed

lemma str_nat_nonempty [simp]: "str_nat n \<noteq> []"
  by (cases "n < 10") (simp_all add: str_nat_small str_nat_big)

lemma read_nat_snoc: "read_nat (s @ [c]) = 10 * read_nat s + digit_val c"
  by (simp add: read_nat_def)

lemma read_nat_str_nat: "read_nat (str_nat n) = n"
proof (induction n rule: str_nat.induct)
  case (1 n)
  show ?case
  proof (cases "n < 10")
    case True
    then show ?thesis
      by (simp add: str_nat_small read_nat_def digit_val_digit)
  next
    case False
    with "1.IH" show ?thesis
      by (simp add: str_nat_big read_nat_snoc digit_val_digit)
  qed
qed

lemma frac_digits_digits: "r < 10 ^ e \<Longrightarrow> c \<in> set (frac_digits e r) \<Longrightarrow> is_digit c"
proof (induction e arbitrary: r)
  case 0
  then show ?case by simp
next
  case (Suc e)
  have "r div 10 ^ e < 10"
    using Suc.prems(1) by (simp add: less_mult_imp_div_less mult.commute)
  moreover have "r mod 10 ^ e < 10 ^ e"
    by simp
  ultimately show ?case
    using Suc.prems(2) Suc.IH [of "r mod 10 ^ e"] by (auto simp: is_digit_digit)
qed

lemma read_frac_digits: "r < 10 ^ e \<Longrightarrow> read_frac (frac_digits e r) = of_nat r / 10 ^ e"
proof (induction e arbitrary: r)
  case 0
  then show ?case by simp
next
  case (Suc e)
  have d: "r div 10 ^ e < 10"
    using Suc.prems by (simp add: less_mult_imp_div_less mult.commute)
  have m: "r mod 10 ^ e < 10 ^ e"
    by simp
  have "(of_nat r :: rat) = of_nat (r div 10 ^ e * 10 ^ e + r mod 10 ^ e)"
    by (simp only: div_mult_mod_eq)
  also have "\<dots> = of_nat (r div 10 ^ e) * 10 ^ e + of_nat (r mod 10 ^ e)"
    by (simp only: of_nat_add of_nat_mult of_nat_power of_nat_numeral)
  finally have r: "(of_nat r :: rat) = of_nat (r div 10 ^ e) * 10 ^ e + of_nat (r mod 10 ^ e)" .
  have "read_frac (frac_digits (Suc e) r) =
          (of_nat (r div 10 ^ e) + of_nat (r mod 10 ^ e) / 10 ^ e) / 10"
    using Suc.IH [OF m] d by (simp add: digit_val_digit)
  also have "\<dots> = (of_nat (r div 10 ^ e) * 10 ^ e + of_nat (r mod 10 ^ e)) / 10 ^ Suc e"
    by (simp add: add_divide_distrib)
  finally show ?case
    by (simp only: r)
qed

lemma strip_zeros_val:
  "strip_zeros a e = (a', k) \<Longrightarrow> (of_nat a' :: rat) / 10 ^ k = of_nat a / 10 ^ e"
proof (induction a e arbitrary: a' k rule: strip_zeros.induct)
  case (1 a)
  then show ?case by simp
next
  case (2 a e)
  show ?case
  proof (cases "a mod 10 = 0")
    case True
    with "2.prems" have "strip_zeros (a div 10) e = (a', k)"
      by simp
    from "2.IH" [OF True this] have "(of_nat a' :: rat) / 10 ^ k = of_nat (a div 10) / 10 ^ e" .
    moreover from True have "a = a div 10 * 10"
      by auto
    then have "(of_nat a :: rat) = of_nat (a div 10 * 10)"
      by (rule arg_cong)
    then have "(of_nat a :: rat) = of_nat (a div 10) * 10"
      by (simp only: of_nat_mult of_nat_numeral)
    ultimately show ?thesis by simp
  next
    case False
    with "2.prems" show ?thesis by auto
  qed
qed


lemma read_unsigned_digits:
  assumes "\<forall>c\<in>set ds. is_digit c"
  shows "read_unsigned ds = of_nat (read_nat ds)"
proof -
  have t: "takeWhile is_digit ds = ds"
    using assms by simp
  have d: "dropWhile is_digit ds = []"
    using assms by simp
  show ?thesis
    unfolding read_unsigned_def t d by simp
qed

lemma read_unsigned_point:
  assumes "\<forall>c\<in>set ds. is_digit c"
  shows "read_unsigned (ds @ CHR ''.'' # f) = of_nat (read_nat ds) + read_frac f"
proof -
  have t: "takeWhile is_digit (ds @ CHR ''.'' # f) = ds"
    using assms by (simp add: takeWhile_tail)
  have d: "dropWhile is_digit (ds @ CHR ''.'' # f) = CHR ''.'' # f"
    using assms by (simp add: dropWhile_append3)
  show ?thesis
    unfolding read_unsigned_def t d by simp
qed

lemma hd_str_nat: "is_digit (hd (str_nat n))"
  using str_nat_digits [of "hd (str_nat n)" n] by simp

lemma read_num_body:
  assumes "s \<noteq> []" and "is_digit (hd s)"
  shows "read_num s = read_unsigned s"
  using assms by (cases s) (auto simp: read_num_def)

lemma read_num_str_int: "read_num (str_int i) = of_int i"
proof (cases "i < 0")
  case True
  have "read_unsigned (str_nat (nat (- i))) = of_nat (nat (- i))"
    by (simp add: read_unsigned_digits str_nat_digits read_nat_str_nat)
  with True show ?thesis
    by (simp add: str_int_def read_num_def)
next
  case False
  have "read_num (str_nat (nat i)) = read_unsigned (str_nat (nat i))"
    by (rule read_num_body) (simp_all add: hd_str_nat)
  also have "\<dots> = of_nat (nat i)"
    by (simp add: read_unsigned_digits str_nat_digits read_nat_str_nat)
  finally show ?thesis
    using False by (simp add: str_int_def)
qed

lemma str_float_body:
  "str_float m e =
     (if m < 0 then ''-'' else []) @
     float_body (fst (strip_zeros (nat \<bar>m\<bar>) e)) (snd (strip_zeros (nat \<bar>m\<bar>) e))"
  by (simp add: str_float_def float_body_def split: prod.splits)

lemma read_frac_zero: "read_frac ''0'' = 0"
  using digit_val_digit [of 0] by (simp add: digit_simps)

lemma read_unsigned_float_body: "read_unsigned (float_body a k) = of_nat a / 10 ^ k"
proof -
  have ds: "\<forall>c\<in>set (str_nat (a div 10 ^ k)). is_digit c"
    by (simp add: str_nat_digits)
  have f: "read_frac (if k = 0 then ''0'' else frac_digits k (a mod 10 ^ k)) =
             of_nat (a mod 10 ^ k) / 10 ^ k"
  proof (cases "k = 0")
    case True
    then show ?thesis
      by (simp add: read_frac_zero del: read_frac.simps)
  next
    case False
    then show ?thesis
      by (simp add: read_frac_digits)
  qed
  have "(of_nat a :: rat) = of_nat (a div 10 ^ k * 10 ^ k + a mod 10 ^ k)"
    by (simp only: div_mult_mod_eq)
  also have "\<dots> = of_nat (a div 10 ^ k) * 10 ^ k + of_nat (a mod 10 ^ k)"
    by (simp only: of_nat_add of_nat_mult of_nat_power of_nat_numeral)
  finally have a: "(of_nat a :: rat) = of_nat (a div 10 ^ k) * 10 ^ k + of_nat (a mod 10 ^ k)" .
  have "read_unsigned (float_body a k) =
          of_nat (a div 10 ^ k) + of_nat (a mod 10 ^ k) / 10 ^ k"
    unfolding float_body_def append_Cons append_Nil
    by (simp only: read_unsigned_point [OF ds] f read_nat_str_nat)
  also have "\<dots> = (of_nat (a div 10 ^ k) * 10 ^ k + of_nat (a mod 10 ^ k)) / 10 ^ k"
    by (simp add: add_divide_distrib)
  finally show ?thesis
    by (simp only: a)
qed

lemma float_body_shape:
  "float_body a k \<noteq> []" "is_digit (hd (float_body a k))"
  "c \<in> set (float_body a k) \<Longrightarrow> body_char c"
proof -
  show "float_body a k \<noteq> []"
    by (simp add: float_body_def)
  show "is_digit (hd (float_body a k))"
    by (simp add: float_body_def hd_append hd_str_nat)
  assume c: "c \<in> set (float_body a k)"
  have "a mod 10 ^ k < 10 ^ k"
    by simp
  then have "\<And>c. c \<in> set (frac_digits k (a mod 10 ^ k)) \<Longrightarrow> is_digit c"
    by (rule frac_digits_digits)
  with c show "body_char c"
    by (auto simp: float_body_def body_char_def is_digit_def dest: str_nat_digits
        split: if_splits)
qed

lemma read_num_str_float: "read_num (str_float m e) = of_int m / 10 ^ e"
proof -
  obtain a k where sz: "strip_zeros (nat \<bar>m\<bar>) e = (a, k)"
    by (cases "strip_zeros (nat \<bar>m\<bar>) e")
  have v: "(of_nat a :: rat) / 10 ^ k = of_nat (nat \<bar>m\<bar>) / 10 ^ e"
    by (rule strip_zeros_val [OF sz])
  have b: "str_float m e = (if m < 0 then ''-'' else []) @ float_body a k"
    unfolding str_float_body sz by simp
  show ?thesis
  proof (cases "m < 0")
    case True
    then have "read_num (str_float m e) = - read_unsigned (float_body a k)"
      by (simp add: b read_num_def)
    also have "\<dots> = - (of_nat (nat \<bar>m\<bar>) / 10 ^ e)"
      by (simp only: read_unsigned_float_body v)
    also have "\<dots> = of_int m / 10 ^ e"
      using True by simp
    finally show ?thesis .
  next
    case False
    then have "read_num (str_float m e) = read_num (float_body a k)"
      by (simp add: b)
    also have "\<dots> = read_unsigned (float_body a k)"
      by (rule read_num_body) (rule float_body_shape)+
    also have "\<dots> = of_nat (nat \<bar>m\<bar>) / 10 ^ e"
      by (simp only: read_unsigned_float_body v)
    also have "\<dots> = of_int m / 10 ^ e"
      using False by simp
    finally show ?thesis .
  qed
qed

lemma read_num_str_num: "read_num (str_num a) = val a"
  by (cases a) (simp_all add: read_num_str_int read_num_str_float)

lemma str_num_inj: "str_num a = str_num b \<Longrightarrow> val a = val b"
  by (metis read_num_str_num)


lemma str_num_shape:
  obtains sg body where "str_num a = sg @ body" and "sg = [] \<or> sg = ''-''"
    and "body \<noteq> []" and "is_digit (hd body)" and "\<forall>c\<in>set body. body_char c"
proof (cases a)
  case (PInt i)
  have "str_num a = (if i < 0 then ''-'' else []) @ str_nat (nat \<bar>i\<bar>)"
    using PInt by (simp add: str_int_def)
  moreover have "\<forall>c\<in>set (str_nat (nat \<bar>i\<bar>)). body_char c"
    by (simp add: body_char_def str_nat_digits)
  ultimately show ?thesis
    using that [of "if i < 0 then ''-'' else []" "str_nat (nat \<bar>i\<bar>)"]
    by (simp add: hd_str_nat)
next
  case (PFloat m e)
  obtain k n where "str_num a = (if m < 0 then ''-'' else []) @ float_body k n"
    using PFloat by (simp add: str_float_body)
  then show ?thesis
    using that [of "if m < 0 then ''-'' else []" "float_body k n"]
    by (simp add: float_body_shape)
qed

lemma digit_not_sign: "is_digit c \<Longrightarrow> c \<noteq> CHR ''-'' \<and> c \<noteq> CHR ''+''"
  by (auto simp: is_digit_def)

lemma num_prefix_body:
  assumes "body \<noteq> []" and "is_digit (hd body)" and "\<forall>c\<in>set body. body_char c"
  shows "num_prefix (body @ CHR ''-'' # rest) = body"
    and "num_prefix (CHR ''-'' # body @ CHR ''-'' # rest) = CHR ''-'' # body"
proof -
  have t: "takeWhile body_char (body @ CHR ''-'' # rest) = body"
    using assms(3) by (simp add: takeWhile_tail)
  from assms(1,2) obtain c cs where body: "body = c # cs" and c: "c \<noteq> CHR ''-''"
    by (cases body) (auto dest: digit_not_sign)
  have "num_prefix (body @ CHR ''-'' # rest) = takeWhile body_char (body @ CHR ''-'' # rest)"
    unfolding body using c by (simp add: num_prefix_def)
  then show "num_prefix (body @ CHR ''-'' # rest) = body"
    by (simp only: t)
  have "num_prefix (CHR ''-'' # body @ CHR ''-'' # rest) =
      CHR ''-'' # takeWhile body_char (body @ CHR ''-'' # rest)"
    by (simp add: num_prefix_def)
  then show "num_prefix (CHR ''-'' # body @ CHR ''-'' # rest) = CHR ''-'' # body"
    by (simp only: t)
qed

lemma num_prefix_str_num: "num_prefix (str_num a @ CHR ''-'' # rest) = str_num a"
proof -
  obtain sg body where s: "str_num a = sg @ body" and sg: "sg = [] \<or> sg = ''-''"
    and ne: "body \<noteq> []" and hd: "is_digit (hd body)" and bc: "\<forall>c\<in>set body. body_char c"
    by (rule str_num_shape)
  from sg show ?thesis
  proof
    assume "sg = []"
    then have "str_num a = body"
      using s by simp
    then show ?thesis
      by (simp only: num_prefix_body(1) [OF ne hd bc])
  next
    assume "sg = ''-''"
    then have "str_num a = CHR ''-'' # body"
      using s by simp
    then show ?thesis
      by (simp only: append_Cons num_prefix_body(2) [OF ne hd bc])
  qed
qed

lemma label_inj:
  assumes "label r = label r'"
  shows "val (fst r) = val (fst r') \<and> val (snd r) = val (snd r')"
proof -
  from assms have eq: "str_num (fst r) @ CHR ''-'' # str_num (snd r) =
      str_num (fst r') @ CHR ''-'' # str_num (snd r')"
    by (simp add: label_def)
  then have "num_prefix (str_num (fst r) @ CHR ''-'' # str_num (snd r)) =
      num_prefix (str_num (fst r') @ CHR ''-'' # str_num (snd r'))"
    by (rule arg_cong)
  then have 1: "str_num (fst r) = str_num (fst r')"
    by (simp only: num_prefix_str_num)
  from eq have 2: "str_num (snd r) = str_num (snd r')"
    unfolding 1 by simp
  from 1 2 show ?thesis
    by (blast dest: str_num_inj)
qed

lemma over_label_neq: "CHR ''+'' # str_num h \<noteq> label r"
proof -
  obtain sg body where s: "str_num (fst r) = sg @ body" and sg: "sg = [] \<or> sg = ''-''"
    and ne: "body \<noteq> []" and hd: "is_digit (hd body)"
    by (rule str_num_shape)
  from ne hd obtain c cs where body: "body = c # cs" and c: "c \<noteq> CHR ''+''"
    by (cases body) (auto dest: digit_not_sign)
  have "hd (label r) \<noteq> CHR ''+''"
    unfolding label_def s body using sg c by auto
  then show ?thesis
    by (metis list.sel(1))
qed

section \<open>The dictionary built by the grouping\<close>

lemma map_of_dict_set: "map_of (dict_set k v d) = (map_of d)(k \<mapsto> v)"
  by (induction d) auto

lemma keys_dict_set: "fst ` set (dict_set k v d) = insert k (fst ` set d)"
  by (induction d) auto

lemma distinct_dict_set:
  "distinct (map fst d) \<Longrightarrow> distinct (map fst (dict_set k v d))"
proof (induction d)
  case Nil
  then show ?case by simp
next
  case (Cons p d)
  then show ?case
    using keys_dict_set [of k v d] by (auto simp: image_iff)
qed

lemma distinct_group_loop:
  "distinct (map fst d) \<Longrightarrow> distinct (map fst (group_loop series rows d))"
  by (induction rows arbitrary: d) (simp_all add: Let_def distinct_dict_set)

lemma group_loop_lookup:
  "map_of (group_loop series rows d) k =
     (if filter (\<lambda>x. label x = k) rows = [] then map_of d k
      else Some (part_of series (last (filter (\<lambda>x. label x = k) rows)),
                 length (part_of series (last (filter (\<lambda>x. label x = k) rows)))))"
proof (induction rows arbitrary: d)
  case Nil
  then show ?case by simp
next
  case (Cons x rows)
  show ?case
    by (simp add: Let_def Cons.IH map_of_dict_set)
qed

lemma part_of_cong:
  "val (fst r) = val (fst r') \<and> val (snd r) = val (snd r') \<Longrightarrow> part_of series r = part_of series r'"
  by (simp add: part_of_def)

lemma group_loop_row:
  assumes "r \<in> set rows"
  shows "map_of (group_loop series rows d) (label r) =
           Some (part_of series r, length (part_of series r))"
proof -
  let ?f = "filter (\<lambda>x. label x = label r) rows"
  from assms have ne: "?f \<noteq> []"
    by (auto simp: filter_empty_conv)
  then have "last ?f \<in> set ?f"
    by (rule last_in_set)
  then have "label (last ?f) = label r"
    by simp
  then have "part_of series (last ?f) = part_of series r"
    by (intro part_of_cong label_inj)
  with ne show ?thesis
    by (simp add: group_loop_lookup)
qed

lemma grouping_result:
  assumes "intervals \<noteq> [] \<or> \<not> higher_vals"
  shows "grouping series intervals higher_vals =
           Inr (if higher_vals
                then dict_set (CHR ''+'' # str_num (snd (last intervals)))
                       (filter (\<lambda>x. val x > val (snd (last intervals))) series,
                        length (filter (\<lambda>x. val x > val (snd (last intervals))) series))
                       (group_loop series intervals [])
                else group_loop series intervals [])"
  using assms by (cases intervals) (simp_all add: grouping_def Let_def)

lemma grouping_row:
  assumes "r \<in> set intervals"
  shows "\<exists>d. grouping series intervals higher_vals = Inr d \<and>
           map_of d (label r) = Some (part_of series r, length (part_of series r))"
proof -
  from assms have "intervals \<noteq> [] \<or> \<not> higher_vals"
    by auto
  from grouping_result [OF this] show ?thesis
    using over_label_neq [of "snd (last intervals)" r] group_loop_row [OF assms]
    by (auto simp: map_of_dict_set)
qed

text \<open>
  Claim C5 (bins are left-exclusive and right-inclusive): for every interval \<open>(lo, hi)\<close>
  of the resolved intervals the grouping returns a dictionary whose entry under the
  label \<open>{lo}-{hi}\<close> is the list of the series values \<open>v\<close> with \<open>lo < v \<le> hi\<close>, in series
  order, together with its length; so a value is in that bin exactly when it is a series
  value with \<open>lo < v \<le> hi\<close>, and a value equal to the upper bound \<open>hi\<close> is in this bin and
  in no bin of an interval that starts at \<open>hi\<close>.
\<close>

theorem bin_membership:
  assumes "(lo, hi) \<in> set intervals"
  shows "\<exists>d. grouping series intervals higher_vals = Inr d \<and>
           map_of d (str_num lo @ ''-'' @ str_num hi) =
             Some (filter (\<lambda>v. val lo < val v \<and> val v \<le> val hi) series,
                   length (filter (\<lambda>v. val lo < val v \<and> val v \<le> val hi) series)) \<and>
           (\<forall>v. v \<in> set (bin_values d (str_num lo @ ''-'' @ str_num hi)) \<longleftrightarrow>
                v \<in> set series \<and> val lo < val v \<and> val v \<le> val hi) \<and>
           (\<forall>v\<in>set series. \<forall>r\<in>set intervals.
              val v = val hi \<and> val lo < val hi \<and> val (fst r) = val hi \<longrightarrow>
                v \<in> set (bin_values d (str_num lo @ ''-'' @ str_num hi)) \<and>
                v \<notin> set (bin_values d (label r)))"
proof -
  let ?k = "str_num lo @ ''-'' @ str_num hi"
  let ?p = "filter (\<lambda>v. val lo < val v \<and> val v \<le> val hi) series"
  have k: "label (lo, hi) = ?k"
    by (simp add: label_def)
  have p: "part_of series (lo, hi) = ?p"
    by (simp add: part_of_def conj_commute)
  from grouping_row [OF assms, of series higher_vals]
  obtain d where g: "grouping series intervals higher_vals = Inr d"
    and m: "map_of d ?k = Some (?p, length ?p)"
    unfolding k p by blast
  have b: "bin_values d ?k = ?p"
    unfolding bin_values_def m by simp
  have "v \<notin> set (bin_values d (label r))"
    if "v \<in> set series" "r \<in> set intervals" "val v = val hi" "val (fst r) = val hi" for v r
  proof -
    from grouping_row [OF that(2), of series higher_vals] g
    have "map_of d (label r) = Some (part_of series r, length (part_of series r))"
      by simp
    then have "bin_values d (label r) = part_of series r"
      by (simp add: bin_values_def)
    with that(3,4) show ?thesis
      by (simp add: part_of_def)
  qed
  with g m b show ?thesis
    by auto
qed

theorem bin_membership_witness:
  "\<exists>d. grouping (map PInt [5, 10, 15]) [(PInt 0, PInt 10), (PInt 10, PInt 20)] True = Inr d \<and>
        map_of d ''0-10'' = Some ([PInt 5, PInt 10], 2) \<and>
        PInt 10 \<in> set (bin_values d ''0-10'') \<and>
        PInt 10 \<notin> set (bin_values d ''10-20'')"
proof -
  have l: "str_num (PInt 0) @ ''-'' @ str_num (PInt 10) = ''0-10''"
    "label (PInt 10, PInt 20) = ''10-20''"
    by (simp_all add: str_eval)
  from bin_membership [of "PInt 0" "PInt 10" "[(PInt 0, PInt 10), (PInt 10, PInt 20)]"
      "map PInt [5, 10, 15]" True]
  obtain d where
    g: "grouping (map PInt [5, 10, 15]) [(PInt 0, PInt 10), (PInt 10, PInt 20)] True = Inr d"
    and m: "map_of d ''0-10'' = Some ([PInt 5, PInt 10], 2)"
    and b: "\<forall>v\<in>set (map PInt [5, 10, 15]). \<forall>r\<in>set [(PInt 0, PInt 10), (PInt 10, PInt 20)].
              val v = val (PInt 10) \<and> val (PInt 0) < val (PInt 10) \<and> val (fst r) = val (PInt 10) \<longrightarrow>
                v \<in> set (bin_values d ''0-10'') \<and> v \<notin> set (bin_values d (label r))"
    unfolding l by auto
  from b have "PInt 10 \<in> set (bin_values d ''0-10'') \<and>
      PInt 10 \<notin> set (bin_values d (label (PInt 10, PInt 20)))"
    by simp
  with g m show ?thesis
    unfolding l by blast
qed

section \<open>Contiguous intervals\<close>

lemma chain_Cons: "chain (x # rest) \<Longrightarrow> chain rest"
  by (cases rest) (simp_all add: chain_def)

lemma chain_after:
  "chain (x # rest) \<Longrightarrow> r \<in> set rest \<Longrightarrow> val (snd x) \<le> val (fst r)"
proof (induction rest arbitrary: x)
  case Nil
  then show ?case by simp
next
  case (Cons s rs)
  have xs: "val (snd x) = val (fst s)" and ss: "val (fst s) \<le> val (snd s)"
    using Cons.prems(1) by (simp_all add: chain_def)
  show ?case
  proof (cases "r = s")
    case True
    with xs show ?thesis by simp
  next
    case False
    with Cons.prems(2) have "r \<in> set rs" by simp
    from Cons.IH [OF chain_Cons [OF Cons.prems(1)] this] xs ss show ?thesis
      by simp
  qed
qed

lemma chain_first:
  assumes "chain rows" and "r \<in> set rows"
  shows "val (fst (hd rows)) \<le> val (fst r)"
proof (cases rows)
  case Nil
  with assms show ?thesis by simp
next
  case (Cons x rest)
  show ?thesis
  proof (cases "r = x")
    case True
    with Cons show ?thesis by simp
  next
    case False
    with assms(2) Cons have "r \<in> set rest" by simp
    from chain_after [OF assms(1) [unfolded Cons] this]
    have "val (snd x) \<le> val (fst r)" .
    moreover have "val (fst x) \<le> val (snd x)"
      using assms(1) Cons by (simp add: chain_def)
    ultimately show ?thesis
      using Cons by simp
  qed
qed

lemma chain_last:
  "chain rows \<Longrightarrow> r \<in> set rows \<Longrightarrow> val (snd r) \<le> val (snd (last rows))"
proof (induction rows)
  case Nil
  then show ?case by simp
next
  case (Cons x rest)
  show ?case
  proof (cases "rest = []")
    case True
    with Cons.prems show ?thesis by simp
  next
    case False
    then have l: "last (x # rest) = last rest" by simp
    have "last rest \<in> set rest"
      using False by simp
    show ?thesis
    proof (cases "r \<in> set rest")
      case True
      from Cons.IH [OF chain_Cons [OF Cons.prems(1)] True] l show ?thesis
        by simp
    next
      case no: False
      with Cons.prems(2) have "r = x" by simp
      have "val (snd x) \<le> val (fst (last rest))"
        by (rule chain_after [OF Cons.prems(1) \<open>last rest \<in> set rest\<close>])
      moreover have "val (fst (last rest)) \<le> val (snd (last rest))"
        using chain_Cons [OF Cons.prems(1)] \<open>last rest \<in> set rest\<close>
        by (simp add: chain_def list_all_iff)
      ultimately show ?thesis
        using \<open>r = x\<close> l by simp
    qed
  qed
qed

lemma chain_covers:
  "chain rows \<Longrightarrow> rows \<noteq> [] \<Longrightarrow> val (fst (hd rows)) < val v \<Longrightarrow>
   val v \<le> val (snd (last rows)) \<Longrightarrow> \<exists>r\<in>set rows. inside v r"
proof (induction rows)
  case Nil
  then show ?case by simp
next
  case (Cons x rest)
  show ?case
  proof (cases "val v \<le> val (snd x)")
    case True
    with Cons.prems(3) have "inside v x"
      by (simp add: inside_def)
    then show ?thesis by auto
  next
    case False
    with Cons.prems(4) have ne: "rest \<noteq> []"
      by auto
    then obtain s rs where rest: "rest = s # rs"
      by (cases rest) auto
    have "val (snd x) = val (fst s)"
      using Cons.prems(1) rest by (simp add: chain_def)
    with False have "val (fst (hd rest)) < val v"
      using rest by simp
    moreover have "val v \<le> val (snd (last rest))"
      using Cons.prems(4) ne by simp
    ultimately have "\<exists>r\<in>set rest. inside v r"
      using Cons.IH [OF chain_Cons [OF Cons.prems(1)] ne] by blast
    then show ?thesis by auto
  qed
qed

lemma chain_unique:
  "chain rows \<Longrightarrow> r \<in> set rows \<Longrightarrow> r' \<in> set rows \<Longrightarrow> inside v r \<Longrightarrow> inside v r' \<Longrightarrow>
   r = r'"
proof (induction rows)
  case Nil
  then show ?case by simp
next
  case (Cons x rest)
  have clash: False if "inside v x" "s \<in> set rest" "inside v s" for s
  proof -
    from chain_after [OF Cons.prems(1) that(2)] have "val (snd x) \<le> val (fst s)" .
    with that(1,3) show False
      by (simp add: inside_def)
  qed
  show ?case
  proof (cases "r = x")
    case rx: True
    show ?thesis
    proof (cases "r' = x")
      case True
      with rx show ?thesis by simp
    next
      case False
      with Cons.prems(3) have "r' \<in> set rest" by simp
      with clash [of r'] Cons.prems(4,5) rx show ?thesis by simp
    qed
  next
    case nrx: False
    with Cons.prems(2) have r: "r \<in> set rest" by simp
    show ?thesis
    proof (cases "r' = x")
      case True
      with clash [of r] r Cons.prems(4,5) show ?thesis by simp
    next
      case False
      with Cons.prems(3) have "r' \<in> set rest" by simp
      from Cons.IH [OF chain_Cons [OF Cons.prems(1)] r this Cons.prems(4,5)]
      show ?thesis .
    qed
  qed
qed


section \<open>With contiguous intervals and the overflow bin every value has one bin\<close>


lemma part_of_inside: "v \<in> set (part_of series r) \<longleftrightarrow> v \<in> set series \<and> inside v r"
  by (auto simp: part_of_def inside_def)

lemma grouping_entries:
  assumes "rows \<noteq> []" and "grouping series rows True = Inr d" and "e \<in> set d"
  shows "e = (CHR ''+'' # str_num (snd (last rows)),
              filter (\<lambda>x. val x > val (snd (last rows))) series,
              length (filter (\<lambda>x. val x > val (snd (last rows))) series)) \<or>
         (\<exists>r\<in>set rows. e = (label r, part_of series r, length (part_of series r)))"
proof -
  let ?o = "(filter (\<lambda>x. val x > val (snd (last rows))) series,
              length (filter (\<lambda>x. val x > val (snd (last rows))) series))"
  from assms(1,2) grouping_result [of rows True series]
  have "d = dict_set (CHR ''+'' # str_num (snd (last rows))) ?o (group_loop series rows [])"
    by simp
  with assms(3) dict_set_subset [of "CHR ''+'' # str_num (snd (last rows))" ?o
      "group_loop series rows []"]
  have "e = (CHR ''+'' # str_num (snd (last rows)), ?o) \<or> e \<in> set (group_loop series rows [])"
    by auto
  then show ?thesis
    using group_loop_entries [of e series rows "[]"] by auto
qed

lemma grouping_has_entries:
  assumes "rows \<noteq> []" and "grouping series rows True = Inr d"
  shows "(CHR ''+'' # str_num (snd (last rows)),
              filter (\<lambda>x. val x > val (snd (last rows))) series,
              length (filter (\<lambda>x. val x > val (snd (last rows))) series)) \<in> set d"
    and "r \<in> set rows \<Longrightarrow> (label r, part_of series r, length (part_of series r)) \<in> set d"
    and "distinct (map fst d)"
proof -
  let ?k = "CHR ''+'' # str_num (snd (last rows))"
  let ?o = "(filter (\<lambda>x. val x > val (snd (last rows))) series,
              length (filter (\<lambda>x. val x > val (snd (last rows))) series))"
  from assms grouping_result [of rows True series]
  have d: "d = dict_set ?k ?o (group_loop series rows [])"
    by simp
  have "map_of d ?k = Some ?o"
    unfolding d by (simp add: map_of_dict_set)
  then show "(?k, ?o) \<in> set d"
    by (rule map_of_SomeD)
  show "distinct (map fst d)"
    unfolding d by (intro distinct_dict_set distinct_group_loop) simp
  assume r: "r \<in> set rows"
  from grouping_row [OF r, of series True] assms(2)
  have "map_of d (label r) = Some (part_of series r, length (part_of series r))"
    by simp
  then show "(label r, part_of series r, length (part_of series r)) \<in> set d"
    by (rule map_of_SomeD)
qed

lemma grouping_partition:
  assumes ch: "chain rows" and ne: "rows \<noteq> []"
  shows "\<exists>d. grouping series rows True = Inr d \<and> distinct (map fst d) \<and>
     (\<forall>e\<in>set d. snd (snd e) = length (fst (snd e)) \<and>
         fst (snd e) = filter (\<lambda>v. v \<in> set (fst (snd e))) series) \<and>
     (\<forall>v\<in>set series. val (fst (hd rows)) < val v \<longrightarrow>
         (\<exists>!e. e \<in> set d \<and> v \<in> set (fst (snd e)))) \<and>
     (\<forall>v. val v \<le> val (fst (hd rows)) \<longrightarrow> (\<forall>e\<in>set d. v \<notin> set (fst (snd e))))"
proof -
  let ?hi = "snd (last rows)"
  let ?op = "filter (\<lambda>x. val x > val ?hi) series"
  let ?over = "(CHR ''+'' # str_num ?hi, ?op, length ?op)"
  from ne grouping_result [of rows True series]
  obtain d where g: "grouping series rows True = Inr d"
    by simp
  note E = grouping_entries [OF ne g]
  note M = grouping_has_entries [OF ne g]
  have wf: "snd (snd e) = length (fst (snd e)) \<and>
         fst (snd e) = filter (\<lambda>v. v \<in> set (fst (snd e))) series" if "e \<in> set d" for e
  proof -
    from E [OF that] show ?thesis
    proof
      assume "e = ?over"
      then show ?thesis by (auto intro: filter_cong)
    next
      assume "\<exists>r\<in>set rows. e = (label r, part_of series r, length (part_of series r))"
      then show ?thesis by (auto simp: part_of_def intro: filter_cong)
    qed
  qed
  have one: "\<exists>!e. e \<in> set d \<and> v \<in> set (fst (snd e))"
    if v: "v \<in> set series" and lo: "val (fst (hd rows)) < val v" for v
  proof -
    have ex: "\<exists>e. e \<in> set d \<and> v \<in> set (fst (snd e))"
    proof (cases "val v \<le> val ?hi")
      case True
      from chain_covers [OF ch ne lo True] obtain r where r: "r \<in> set rows" and "inside v r"
        by blast
      with v have "v \<in> set (part_of series r)"
        by (simp add: part_of_inside)
      with M(2) [OF r] show ?thesis
        by force
    next
      case False
      with v have "v \<in> set ?op" by simp
      with M(1) show ?thesis
        by force
    qed
    have uniq: "e = e'" if e: "e \<in> set d" "v \<in> set (fst (snd e))"
      and e': "e' \<in> set d" "v \<in> set (fst (snd e'))" for e e'
    proof -
      have row_over: False
        if "r \<in> set rows" "v \<in> set (part_of series r)" "v \<in> set ?op" for r
      proof -
        from that(2) have "val v \<le> val (snd r)"
          by (simp add: part_of_inside inside_def)
        with chain_last [OF ch that(1)] that(3) show False
          by simp
      qed
      from E [OF e(1)] E [OF e'(1)] show ?thesis
      proof (elim disjE bexE)
        assume "e = ?over" "e' = ?over"
        then show ?thesis by simp
      next
        fix r assume "e = ?over" "r \<in> set rows"
          "e' = (label r, part_of series r, length (part_of series r))"
        with row_over [of r] e(2) e'(2) show ?thesis by simp
      next
        fix r assume "e' = ?over" "r \<in> set rows"
          "e = (label r, part_of series r, length (part_of series r))"
        with row_over [of r] e(2) e'(2) show ?thesis by simp
      next
        fix r r' assume r: "r \<in> set rows" "e = (label r, part_of series r, length (part_of series r))"
          and r': "r' \<in> set rows" "e' = (label r', part_of series r', length (part_of series r'))"
        with e(2) e'(2) have "inside v r" "inside v r'"
          by (simp_all add: part_of_inside)
        from chain_unique [OF ch r(1) r'(1) this] r(2) r'(2) show ?thesis
          by simp
      qed
    qed
    from ex uniq show ?thesis
      by blast
  qed
  have none: "v \<notin> set (fst (snd e))" if le: "val v \<le> val (fst (hd rows))" and e: "e \<in> set d"
    for v e
  proof
    assume in_e: "v \<in> set (fst (snd e))"
    from ne have hd: "hd rows \<in> set rows" by simp
    from E [OF e] show False
    proof (elim disjE bexE)
      assume "e = ?over"
      with in_e have "val ?hi < val v" by simp
      moreover have "val (fst (hd rows)) \<le> val (snd (hd rows))"
        using ch hd by (simp add: chain_def list_all_iff)
      moreover note chain_last [OF ch hd] le
      ultimately show False by simp
    next
      fix r assume r: "r \<in> set rows" "e = (label r, part_of series r, length (part_of series r))"
      with in_e have "val (fst r) < val v"
        by (simp add: part_of_inside inside_def)
      with chain_first [OF ch r(1)] le show False by simp
    qed
  qed
  from g M(3) wf one none show ?thesis
    by blast
qed



lemma val_to_float [simp]: "val (to_float a) = val a"
  by (cases a) simp_all

lemma chain_map:
  assumes "\<And>r. val (fst (g r)) = val (fst r) \<and> val (snd (g r)) = val (snd r)"
  shows "chain (map g rows) = chain rows"
proof -
  have "contiguous (map g rows) = contiguous rows"
    by (induction rows rule: contiguous.induct) (simp_all add: assms)
  then show ?thesis
    by (simp add: chain_def list_all_iff assms)
qed

lemma np_array_cases:
  "np_array rows = rows \<or> np_array rows = map (\<lambda>r. (to_float (fst r), to_float (snd r))) rows"
  by (simp add: np_array_def)

lemma chain_np_array: "chain (np_array rows) = chain rows"
  using np_array_cases [of rows] by (auto simp: chain_map)

lemma np_array_empty [simp]: "np_array rows = [] \<longleftrightarrow> rows = []"
  using np_array_cases [of rows] by auto

lemma hd_np_array: "rows \<noteq> [] \<Longrightarrow> val (fst (hd (np_array rows))) = val (fst (hd rows))"
  using np_array_cases [of rows] by (auto simp: hd_map)

lemma regular_as_intervals: "regular (as_intervals rows)"
  by (simp add: regular_def as_intervals_def list_all_iff)

lemma rebind_regular: "regular xs \<Longrightarrow> \<exists>b'. rebind rr xs b = Inr b'"
  by (cases b) (simp_all add: rebind_def)

lemma check_loop_valid:
  assumes "regular xs" and "\<forall>r\<in>set rest. val (fst r) < val (snd r)"
  shows "check_loop rr xs idx (as_intervals rest) b acc = Inr (np_array (acc @ rest))"
  using assms(2)
proof (induction rest arbitrary: idx b acc)
  case Nil
  then show ?case by (simp add: as_intervals_def)
next
  case (Cons r rest)
  from rebind_regular [OF assms(1)] obtain b' where b': "rebind rr xs b = Inr b'"
    by blast
  from Cons.prems have lt: "val (fst r) < val (snd r)" and rest: "\<forall>r\<in>set rest. val (fst r) < val (snd r)"
    by simp_all
  have "check_loop rr xs (Suc idx) (as_intervals rest) b' (acc @ [(fst r, snd r)]) =
          Inr (np_array ((acc @ [(fst r, snd r)]) @ rest))"
    by (rule Cons.IH [OF rest])
  then show ?case
    using lt b' by (simp add: as_intervals_def)
qed

lemma intervals_check_valid:
  assumes "\<forall>r\<in>set rows. val (fst r) < val (snd r)"
  shows "intervals_check rr (as_intervals rows) = Inr (np_array rows)"
  using check_loop_valid [OF regular_as_intervals assms, of rr rows 0 TheList "[]"]
  by (simp add: intervals_check_def)

lemma one_entry_one_key:
  assumes d: "distinct (map fst d)" and one: "\<exists>!e. e \<in> set d \<and> v \<in> set (fst (snd e))"
  shows "\<exists>!k. k \<in> set (x_axis d) \<and> v \<in> set (bin_values d k)"
proof -
  have bv: "bin_values d (fst e) = fst (snd e)" if "e \<in> set d" for e
  proof -
    from that have "(fst e, snd e) \<in> set d" by simp
    with d have "map_of d (fst e) = Some (snd e)"
      by (rule map_of_is_SomeI)
    then show ?thesis
      by (simp add: bin_values_def)
  qed
  from one obtain e where e: "e \<in> set d" "v \<in> set (fst (snd e))"
    and u: "\<And>e'. e' \<in> set d \<Longrightarrow> v \<in> set (fst (snd e')) \<Longrightarrow> e' = e"
    by blast
  show ?thesis
  proof (rule ex1I [of _ "fst e"])
    show "fst e \<in> set (x_axis d) \<and> v \<in> set (bin_values d (fst e))"
      using e bv [OF e(1)] by (simp add: x_axis_def)
  next
    fix k assume k: "k \<in> set (x_axis d) \<and> v \<in> set (bin_values d k)"
    then obtain e' where e': "e' \<in> set d" "fst e' = k"
      by (auto simp: x_axis_def)
    with k bv [OF e'(1)] have "v \<in> set (fst (snd e'))"
      by simp
    from u [OF e'(1) this] e'(2) show "k = fst e"
      by simp
  qed
qed

text \<open>
  Claim C4 (custom contiguous intervals with the overflow bin): when the caller passes a
  non-empty list of intervals, each with lower bound below upper bound and each starting
  where the previous one ends, and asks for the overflow bin, the call succeeds for a
  valid series and color, and every retained value above the first lower bound is held
  by exactly one key of the resulting dictionary.
\<close>

theorem each_value_in_one_bin:
  assumes "rows \<noteq> []" and "\<forall>r\<in>set rows. val (fst r) < val (snd r)" and "contiguous rows"
    and "series_check series = Inr values" and "bar_color_check bar_color = Inr c"
  shows "\<exists>d. plot_group rr series (IvList (as_intervals rows)) True bar_color =
                Inr \<lparr>color = c, intervals_dict = d\<rparr> \<and>
              (\<forall>v\<in>set values. val (fst (hd rows)) < val v \<longrightarrow>
                 (\<exists>!k. k \<in> set (x_axis d) \<and> v \<in> set (bin_values d k)))"
proof -
  have "chain rows"
    using assms(2,3) by (auto simp: chain_def list_all_iff intro: less_imp_le)
  then have ch: "chain (np_array rows)"
    by (simp add: chain_np_array)
  have ne: "np_array rows \<noteq> []"
    using assms(1) by simp
  from grouping_partition [OF ch ne, of "values"]
  obtain d where g: "grouping values (np_array rows) True = Inr d"
    and dist: "distinct (map fst d)"
    and one: "\<forall>v\<in>set values. val (fst (hd (np_array rows))) < val v \<longrightarrow>
         (\<exists>!e. e \<in> set d \<and> v \<in> set (fst (snd e)))"
    by blast
  have "plot_group rr series (IvList (as_intervals rows)) True bar_color =
          Inr \<lparr>color = c, intervals_dict = d\<rparr>"
    by (simp add: plot_group_def assms(4,5) resolve_def intervals_check_valid [OF assms(2)] g)
  moreover have "\<exists>!k. k \<in> set (x_axis d) \<and> v \<in> set (bin_values d k)"
    if "v \<in> set values" "val (fst (hd rows)) < val v" for v
    using one that dist by (intro one_entry_one_key) (simp_all add: hd_np_array [OF assms(1)])
  ultimately show ?thesis
    by blast
qed

theorem each_value_in_one_bin_witness:
  "\<exists>d. plot_group True (Series (ints [5, 10, 15, 25]))
          (IvList (as_intervals [(PInt 0, PInt 10), (PInt 10, PInt 20)])) True
          (ColAtom (AStr ''red'')) = Inr \<lparr>color = ''red'', intervals_dict = d\<rparr> \<and>
       (\<exists>!k. k \<in> set (x_axis d) \<and> PInt 10 \<in> set (bin_values d k)) \<and>
       (\<exists>!k. k \<in> set (x_axis d) \<and> PInt 25 \<in> set (bin_values d k))"
proof -
  have c: "bar_color_check (ColAtom (AStr ''red'')) = Inr ''red''"
    by (simp add: bar_color_check_def)
  have "\<exists>d. plot_group True (Series (ints [5, 10, 15, 25]))
          (IvList (as_intervals [(PInt 0, PInt 10), (PInt 10, PInt 20)])) True
          (ColAtom (AStr ''red'')) = Inr \<lparr>color = ''red'', intervals_dict = d\<rparr> \<and>
       (\<forall>v\<in>set (map PInt [5, 10, 15, 25]).
           val (fst (hd [(PInt 0, PInt 10), (PInt 10, PInt 20)])) < val v \<longrightarrow>
           (\<exists>!k. k \<in> set (x_axis d) \<and> v \<in> set (bin_values d k)))"
    by (rule each_value_in_one_bin [OF _ _ _ series_check_ints c]) simp_all
  then obtain d where
    p: "plot_group True (Series (ints [5, 10, 15, 25]))
          (IvList (as_intervals [(PInt 0, PInt 10), (PInt 10, PInt 20)])) True
          (ColAtom (AStr ''red'')) = Inr \<lparr>color = ''red'', intervals_dict = d\<rparr>"
    and b: "\<forall>v\<in>set (map PInt [5, 10, 15, 25]).
           val (fst (hd [(PInt 0, PInt 10), (PInt 10, PInt 20)])) < val v \<longrightarrow>
           (\<exists>!k. k \<in> set (x_axis d) \<and> v \<in> set (bin_values d k))"
    by blast
  from b have "\<exists>!k. k \<in> set (x_axis d) \<and> PInt 10 \<in> set (bin_values d k)"
    and "\<exists>!k. k \<in> set (x_axis d) \<and> PInt 25 \<in> set (bin_values d k)"
    by simp_all
  with p show ?thesis
    by blast
qed

section \<open>A series with a negative percentile\<close>






section \<open>Default intervals for a percentile between 0 and 5\<close>


lemma round_half_even_int [simp]: "round_half_even (of_int n) = n"
  by (simp add: round_half_even_def)








section \<open>The counts add up to the number of values above the first bound\<close>








end
